theory Spec2Isabelle
  imports Complex_Main "HOL-Library.AList"
begin

section \<open>The car rental service: data model\<close>

text \<open>
  The development follows \<^verbatim>\<open>car_rental_app.py\<close>. Python integers are unbounded, so
  identifiers are \<^typ>\<open>int\<close>. A \<^verbatim>\<open>datetime\<close> is used by the program only through
  \<^verbatim>\<open><=\<close> and \<^verbatim>\<open><\<close>; the values that reach the service are naive datetimes, a linear
  order, modelled by their integer ordinal. The price of a car is stored and never
  computed with.

  A Python \<^verbatim>\<open>dict\<close> keeps its keys in insertion order, and \<^verbatim>\<open>d[k] = v\<close> overwrites the
  value under an existing key where it stands and appends a new key at the end. This is
  an association list with \<^const>\<open>map_of\<close> for \<^verbatim>\<open>d.get(k)\<close> and \<^const>\<open>AList.update\<close>
  for \<^verbatim>\<open>d[k] = v\<close>.
\<close>

type_synonym date = int

record user =
  User_id :: int
  User_name :: string
  User_email :: string

text \<open>
  A \<^verbatim>\<open>Booking\<close> holds a reference to its \<^verbatim>\<open>User\<close> and to its \<^verbatim>\<open>Car\<close>. No code path
  changes a \<^verbatim>\<open>User\<close> or a \<^verbatim>\<open>Booking\<close> after its constructor, so both are held by value.
  A \<^verbatim>\<open>Car\<close> is mutated (its \<^verbatim>\<open>bookings\<close> list grows), so a booking refers to its car by
  the car's \<^verbatim>\<open>id\<close>, which the class counter gives to one object only; the car object
  itself lives in the \<^verbatim>\<open>cars\<close> dictionary of the service.
\<close>

record booking =
  Booking_id :: int
  Booking_user :: user
  Booking_car :: int
  Booking_start_date :: date
  Booking_end_date :: date

record car =
  Car_id :: int
  Car_name :: string
  Car_car_type :: string
  Car_price_per_day :: real
  Car_bookings :: "booking list"

text \<open>
  The state: the three class attributes \<^verbatim>\<open>User._id_counter\<close>, \<^verbatim>\<open>Car._id_counter\<close>,
  \<^verbatim>\<open>Booking._id_counter\<close> and the three dictionaries of the \<^verbatim>\<open>RentalService\<close> instance.
\<close>

record state =
  User_id_counter :: int
  Car_id_counter :: int
  Booking_id_counter :: int
  users :: "(int \<times> user) list"
  cars :: "(int \<times> car) list"
  bookings :: "(int \<times> booking) list"

text \<open>The dictionaries that \<^verbatim>\<open>to_dict\<close> builds.\<close>

record user_dict =
  ud_id :: int
  ud_name :: string
  ud_email :: string

record car_dict =
  cd_id :: int
  cd_name :: string
  cd_type :: string
  cd_price_per_day :: real

text \<open>
  \<^verbatim>\<open>Booking.to_dict\<close> renders the two dates with \<^verbatim>\<open>strftime("%Y-%m-%d")\<close>; the model
  keeps the date itself in that place.
\<close>

record booking_dict =
  bd_id :: int
  bd_user_id :: int
  bd_car_id :: int
  bd_start_date :: date
  bd_end_date :: date

text \<open>
  \<^verbatim>\<open>book_car\<close> raises \<^verbatim>\<open>ValueError\<close> with one of three messages:
  \<^verbatim>\<open>User with id {user_id} does not exist.\<close>,
  \<^verbatim>\<open>Car with id {car_id} does not exist.\<close> and
  \<^verbatim>\<open>Car is not available for the requested period.\<close>
\<close>

datatype error =
  User_does_not_exist int
  | Car_does_not_exist int
  | Car_is_not_available

section \<open>Constructors\<close>

definition User_init :: "string \<Rightarrow> string \<Rightarrow> state \<Rightarrow> user \<times> state" where
  "User_init name email s =
     (\<lparr>User_id = User_id_counter s, User_name = name, User_email = email\<rparr>,
      s\<lparr>User_id_counter := User_id_counter s + 1\<rparr>)"

definition Car_init :: "string \<Rightarrow> string \<Rightarrow> real \<Rightarrow> state \<Rightarrow> car \<times> state" where
  "Car_init name car_type price_per_day s =
     (\<lparr>Car_id = Car_id_counter s, Car_name = name, Car_car_type = car_type,
       Car_price_per_day = price_per_day, Car_bookings = []\<rparr>,
      s\<lparr>Car_id_counter := Car_id_counter s + 1\<rparr>)"

definition Booking_init :: "user \<Rightarrow> car \<Rightarrow> date \<Rightarrow> date \<Rightarrow> state \<Rightarrow> booking \<times> state" where
  "Booking_init u c start_date end_date s =
     (\<lparr>Booking_id = Booking_id_counter s, Booking_user = u, Booking_car = Car_id c,
       Booking_start_date = start_date, Booking_end_date = end_date\<rparr>,
      s\<lparr>Booking_id_counter := Booking_id_counter s + 1\<rparr>)"

definition User_to_dict :: "user \<Rightarrow> user_dict" where
  "User_to_dict u = \<lparr>ud_id = User_id u, ud_name = User_name u, ud_email = User_email u\<rparr>"

definition Car_to_dict :: "car \<Rightarrow> car_dict" where
  "Car_to_dict c =
     \<lparr>cd_id = Car_id c, cd_name = Car_name c, cd_type = Car_car_type c,
      cd_price_per_day = Car_price_per_day c\<rparr>"

definition Booking_to_dict :: "booking \<Rightarrow> booking_dict" where
  "Booking_to_dict b =
     \<lparr>bd_id = Booking_id b, bd_user_id = User_id (Booking_user b), bd_car_id = Booking_car b,
      bd_start_date = Booking_start_date b, bd_end_date = Booking_end_date b\<rparr>"

section \<open>Availability\<close>

text \<open>
  The loop of \<^verbatim>\<open>Car.is_available\<close> over \<^verbatim>\<open>self.bookings\<close>: the first booking that
  overlaps the requested range returns \<^verbatim>\<open>False\<close>; the end of the list returns \<^verbatim>\<open>True\<close>.
\<close>

fun is_available_loop :: "booking list \<Rightarrow> date \<Rightarrow> date \<Rightarrow> bool" where
  "is_available_loop [] start_date end_date = True"
| "is_available_loop (b # bs) start_date end_date =
     (if start_date \<le> Booking_end_date b \<and> Booking_start_date b \<le> end_date then False
      else is_available_loop bs start_date end_date)"

definition is_available :: "car \<Rightarrow> date \<Rightarrow> date \<Rightarrow> bool" where
  "is_available c start_date end_date = is_available_loop (Car_bookings c) start_date end_date"

section \<open>The rental service\<close>

definition RentalService_init :: state where
  "RentalService_init =
     \<lparr>User_id_counter = 1, Car_id_counter = 1, Booking_id_counter = 1,
      users = [], cars = [], bookings = []\<rparr>"

definition add_user :: "string \<Rightarrow> string \<Rightarrow> state \<Rightarrow> user \<times> state" where
  "add_user name email s =
     (case User_init name email s of
        (u, s1) \<Rightarrow> (u, s1\<lparr>users := AList.update (User_id u) u (users s1)\<rparr>))"

definition add_car :: "string \<Rightarrow> string \<Rightarrow> real \<Rightarrow> state \<Rightarrow> car \<times> state" where
  "add_car name car_type price_per_day s =
     (case Car_init name car_type price_per_day s of
        (c, s1) \<Rightarrow> (c, s1\<lparr>cars := AList.update (Car_id c) c (cars s1)\<rparr>))"

definition list_cars :: "state \<Rightarrow> car_dict list" where
  "list_cars s = map (\<lambda>kv. Car_to_dict (snd kv)) (cars s)"

definition get_car :: "state \<Rightarrow> int \<Rightarrow> car option" where
  "get_car s car_id = map_of (cars s) car_id"

definition get_user :: "state \<Rightarrow> int \<Rightarrow> user option" where
  "get_user s user_id = map_of (users s) user_id"

text \<open>
  \<^verbatim>\<open>book_car\<close> returns the booking or raises; either way the caller sees the state as
  the call left it, so the model returns the state beside the result. The car found
  under \<^verbatim>\<open>car_id\<close> is the object that \<^verbatim>\<open>car.bookings.append(booking)\<close> mutates: the
  entry under that key is replaced where it stands.
\<close>

definition book_car :: "int \<Rightarrow> int \<Rightarrow> date \<Rightarrow> date \<Rightarrow> state \<Rightarrow> (error + booking) \<times> state" where
  "book_car user_id car_id start_date end_date s =
     (case get_user s user_id of
        None \<Rightarrow> (Inl (User_does_not_exist user_id), s)
      | Some u \<Rightarrow>
          (case get_car s car_id of
             None \<Rightarrow> (Inl (Car_does_not_exist car_id), s)
           | Some c \<Rightarrow>
               if \<not> is_available c start_date end_date then (Inl Car_is_not_available, s)
               else
                 (case Booking_init u c start_date end_date s of
                    (b, s1) \<Rightarrow>
                      let s2 = s1\<lparr>cars :=
                                 AList.update car_id (c\<lparr>Car_bookings := Car_bookings c @ [b]\<rparr>) (cars s1)\<rparr>;
                          s3 = s2\<lparr>bookings := AList.update (Booking_id b) b (bookings s2)\<rparr>
                      in (Inr b, s3))))"

definition list_bookings :: "state \<Rightarrow> booking_dict list" where
  "list_bookings s = map (\<lambda>kv. Booking_to_dict (snd kv)) (bookings s)"

text \<open>
  The module creates one service and adds three cars to it before any request is
  served.
\<close>

definition rental_service :: state where
  "rental_service =
     snd (add_car ''Tesla Model 3'' ''Electric'' 150
       (snd (add_car ''BMW X5'' ''SUV'' 120
         (snd (add_car ''Peugeot 208'' ''Economy'' 45 RentalService_init)))))"

section \<open>Sequences of calls on the service\<close>

datatype op =
  Add_user string string
  | Add_car string string real
  | Book_car int int date date
  | List_cars
  | List_bookings

datatype result =
  User_result user
  | Car_result car
  | Booking_result booking
  | Raised error
  | Cars_result "car_dict list"
  | Bookings_result "booking_dict list"

fun step :: "state \<Rightarrow> op \<Rightarrow> result \<times> state" where
  "step s (Add_user name email) =
     (case add_user name email s of (u, s') \<Rightarrow> (User_result u, s'))"
| "step s (Add_car name car_type price_per_day) =
     (case add_car name car_type price_per_day s of (c, s') \<Rightarrow> (Car_result c, s'))"
| "step s (Book_car user_id car_id start_date end_date) =
     (case book_car user_id car_id start_date end_date s of
        (Inl e, s') \<Rightarrow> (Raised e, s')
      | (Inr b, s') \<Rightarrow> (Booking_result b, s'))"
| "step s List_cars = (Cars_result (list_cars s), s)"
| "step s List_bookings = (Bookings_result (list_bookings s), s)"

text \<open>The state after a sequence of calls, and the results the calls gave, in order.\<close>

fun run :: "state \<Rightarrow> op list \<Rightarrow> state" where
  "run s [] = s"
| "run s (x # xs) = run (snd (step s x)) xs"

fun results :: "state \<Rightarrow> op list \<Rightarrow> result list" where
  "results s [] = []"
| "results s (x # xs) = fst (step s x) # results (snd (step s x)) xs"

section \<open>The HTTP endpoints\<close>

text \<open>
  The bodies that the endpoints hand to \<^verbatim>\<open>jsonify\<close>. The error messages are
  \<^verbatim>\<open>Missing name or email\<close>, \<^verbatim>\<open>Invalid booking data: {e}\<close>,
  \<^verbatim>\<open>End date must be after start date\<close> and \<^verbatim>\<open>str(e)\<close> of the \<^verbatim>\<open>ValueError\<close> that
  \<^verbatim>\<open>book_car\<close> raised.
\<close>

datatype message =
  Missing_name_or_email
  | Invalid_booking_data
  | End_date_must_be_after_start_date
  | Service_message error

datatype body =
  Error_body message
  | User_body user_dict
  | Booking_body booking_dict
  | Cars_body "car_dict list"
  | Bookings_body "booking_dict list"

type_synonym response = "body \<times> nat"

text \<open>
  \<^verbatim>\<open>register_user\<close> reads \<^verbatim>\<open>name\<close> and \<^verbatim>\<open>email\<close> with \<^verbatim>\<open>data.get\<close>: \<open>None\<close> is a
  missing key, and \<^verbatim>\<open>not name\<close> holds for \<open>None\<close> and for the empty string.
\<close>

definition register_user :: "string option \<Rightarrow> string option \<Rightarrow> state \<Rightarrow> response \<times> state" where
  "register_user name email s =
     (case (name, email) of
        (Some n, Some e) \<Rightarrow>
          if n = [] \<or> e = [] then ((Error_body Missing_name_or_email, 400), s)
          else (case add_user n e s of (u, s') \<Rightarrow> ((User_body (User_to_dict u), 201), s'))
      | _ \<Rightarrow> ((Error_body Missing_name_or_email, 400), s))"

text \<open>
  The payload of \<^verbatim>\<open>/book\<close> after the four conversions of the \<^verbatim>\<open>try\<close> block
  (\<^verbatim>\<open>int(...)\<close> twice, \<^verbatim>\<open>datetime.strptime(..., "%Y-%m-%d")\<close> twice): a field is \<open>None\<close>
  when its conversion raises \<^verbatim>\<open>TypeError\<close> or \<^verbatim>\<open>ValueError\<close>. Any such failure gives
  the same response. The body of the request is taken to be a JSON object, as the
  docstring of the endpoint expects.
\<close>

record booking_data =
  data_user_id :: "int option"
  data_car_id :: "int option"
  data_start_date :: "date option"
  data_end_date :: "date option"

definition book_car_endpoint :: "booking_data \<Rightarrow> state \<Rightarrow> response \<times> state" where
  "book_car_endpoint data s =
     (case (data_user_id data, data_car_id data, data_start_date data, data_end_date data) of
        (Some user_id, Some car_id, Some start_date, Some end_date) \<Rightarrow>
          if end_date < start_date then ((Error_body End_date_must_be_after_start_date, 400), s)
          else
            (case book_car user_id car_id start_date end_date s of
               (Inl e, s') \<Rightarrow> ((Error_body (Service_message e), 400), s')
             | (Inr b, s') \<Rightarrow> ((Booking_body (Booking_to_dict b), 201), s'))
      | _ \<Rightarrow> ((Error_body Invalid_booking_data, 400), s))"

text \<open>The module-level \<^verbatim>\<open>list_cars\<close> and \<^verbatim>\<open>list_bookings_endpoint\<close>.\<close>

definition list_cars_endpoint :: "state \<Rightarrow> response \<times> state" where
  "list_cars_endpoint s = ((Cars_body (list_cars s), 200), s)"

definition list_bookings_endpoint :: "state \<Rightarrow> response \<times> state" where
  "list_bookings_endpoint s = ((Bookings_body (list_bookings s), 200), s)"

datatype request =
  Get_cars
  | Post_users "string option" "string option"
  | Post_book booking_data
  | Get_bookings

fun handle :: "state \<Rightarrow> request \<Rightarrow> response \<times> state" where
  "handle s Get_cars = list_cars_endpoint s"
| "handle s (Post_users name email) = register_user name email s"
| "handle s (Post_book data) = book_car_endpoint data s"
| "handle s Get_bookings = list_bookings_endpoint s"

fun serve :: "state \<Rightarrow> request list \<Rightarrow> state" where
  "serve s [] = s"
| "serve s (r # rs) = serve (snd (handle s r)) rs"

section \<open>Notions of the specification\<close>

text \<open>
  Two closed ranges \<open>[s1, e1]\<close> and \<open>[s2, e2]\<close> overlap iff \<open>s1 \<le> e2\<close> and
  \<open>s2 \<le> e1\<close>.
\<close>

definition overlap :: "booking \<Rightarrow> booking \<Rightarrow> bool" where
  "overlap b1 b2 \<longleftrightarrow>
     Booking_start_date b1 \<le> Booking_end_date b2 \<and> Booking_start_date b2 \<le> Booking_end_date b1"

text \<open>The items of the store are the values of the \<^verbatim>\<open>cars\<close> dictionary.\<close>

definition items :: "state \<Rightarrow> car list" where
  "items s = map snd (cars s)"

definition ledger :: "state \<Rightarrow> booking list" where
  "ledger s = map snd (bookings s)"

text \<open>The identifiers that the successful creations of a sequence of calls assigned.\<close>

fun user_ids :: "result list \<Rightarrow> int list" where
  "user_ids [] = []"
| "user_ids (User_result u # rs) = User_id u # user_ids rs"
| "user_ids (r # rs) = user_ids rs"

fun car_ids :: "result list \<Rightarrow> int list" where
  "car_ids [] = []"
| "car_ids (Car_result c # rs) = Car_id c # car_ids rs"
| "car_ids (r # rs) = car_ids rs"

fun booking_ids :: "result list \<Rightarrow> int list" where
  "booking_ids [] = []"
| "booking_ids (Booking_result b # rs) = Booking_id b # booking_ids rs"
| "booking_ids (r # rs) = booking_ids rs"

text \<open>
  The cars that a sequence of calls registers, in the order of the calls, the first of
  them with identifier \<open>i\<close>.
\<close>

fun cars_added :: "int \<Rightarrow> op list \<Rightarrow> car_dict list" where
  "cars_added i [] = []"
| "cars_added i (Add_car name car_type price_per_day # xs) =
     \<lparr>cd_id = i, cd_name = name, cd_type = car_type, cd_price_per_day = price_per_day\<rparr>
       # cars_added (i + 1) xs"
| "cars_added i (x # xs) = cars_added i xs"

fun is_Book_car :: "op \<Rightarrow> bool" where
  "is_Book_car (Book_car user_id car_id start_date end_date) = True"
| "is_Book_car x = False"

text \<open>
  The ledger and the booking lists of the cars agree: a booking of the ledger stands
  under its own identifier, its user is the user of that identifier in the store, its
  car is in the store and lists it once, no car under another key lists it, and every
  booking that a car lists is the ledger's booking of that identifier.
\<close>

definition ledger_consistent :: "state \<Rightarrow> bool" where
  "ledger_consistent s \<longleftrightarrow>
     distinct (map fst (bookings s)) \<and>
     (\<forall>(k, b) \<in> set (bookings s).
        Booking_id b = k \<and>
        get_user s (User_id (Booking_user b)) = Some (Booking_user b) \<and>
        (case get_car s (Booking_car b) of
           None \<Rightarrow> False
         | Some c \<Rightarrow> Car_id c = Booking_car b \<and> count_list (Car_bookings c) b = 1) \<and>
        (\<forall>(k', c') \<in> set (cars s). b \<in> set (Car_bookings c') \<longrightarrow> k' = Booking_car b)) \<and>
     (\<forall>(k', c') \<in> set (cars s). \<forall>b \<in> set (Car_bookings c').
        map_of (bookings s) (Booking_id b) = Some b)"

section \<open>Invariants used in the proofs\<close>

text \<open>No car lists two bookings, at different places of its list, that overlap.\<close>

definition cars_disjoint :: "state \<Rightarrow> bool" where
  "cars_disjoint s \<longleftrightarrow>
     (\<forall>c \<in> set (items s). sorted_wrt (\<lambda>a b. \<not> overlap a b) (Car_bookings c))"

text \<open>
  The keys of the \<^verbatim>\<open>cars\<close> dictionary are below the counter of the class.
\<close>

definition car_keys_below :: "state \<Rightarrow> bool" where
  "car_keys_below s \<longleftrightarrow> (\<forall>k \<in> set (map fst (cars s)). k < Car_id_counter s)"

text \<open>
  Every dictionary has distinct keys, holds each object under the object's own
  identifier, and holds only identifiers below the counter of the class.
\<close>

definition keys_ok :: "state \<Rightarrow> bool" where
  "keys_ok s \<longleftrightarrow>
     distinct (map fst (users s)) \<and> distinct (map fst (cars s)) \<and>
     distinct (map fst (bookings s)) \<and>
     (\<forall>k u. map_of (users s) k = Some u \<longrightarrow> User_id u = k \<and> k < User_id_counter s) \<and>
     (\<forall>k c. map_of (cars s) k = Some c \<longrightarrow> Car_id c = k \<and> k < Car_id_counter s) \<and>
     (\<forall>k b. map_of (bookings s) k = Some b \<longrightarrow> Booking_id b = k \<and> k < Booking_id_counter s)"

text \<open>
  A booking of the ledger refers to a user and a car of the store, and its car lists
  it once; a booking listed by a car refers to that car and is in the ledger.
\<close>

definition links_ok :: "state \<Rightarrow> bool" where
  "links_ok s \<longleftrightarrow>
     (\<forall>k b. map_of (bookings s) k = Some b \<longrightarrow>
        map_of (users s) (User_id (Booking_user b)) = Some (Booking_user b) \<and>
        (\<exists>c. map_of (cars s) (Booking_car b) = Some c \<and> count_list (Car_bookings c) b = 1)) \<and>
     (\<forall>k c b. map_of (cars s) k = Some c \<longrightarrow> b \<in> set (Car_bookings c) \<longrightarrow>
        Booking_car b = k \<and> map_of (bookings s) (Booking_id b) = Some b)"

text \<open>
  Every booking of the ledger starts no later than it ends.
\<close>

definition dates_ordered :: "state \<Rightarrow> bool" where
  "dates_ordered s \<longleftrightarrow> (\<forall>b \<in> set (ledger s). Booking_start_date b \<le> Booking_end_date b)"

section \<open>A concrete run\<close>

text \<open>
  One car and one user are registered; the user books the car from 2025-08-25 to
  2025-08-27, then from 2025-08-27 to 2025-08-29 (refused: the ranges touch), then from
  2025-08-28 to 2025-08-30. Dates are written as their ordinals.
\<close>

definition scenario :: "op list" where
  "scenario =
     [Add_car ''Peugeot 208'' ''Economy'' 45,
      Add_user ''Alice'' ''alice@example.com'',
      Book_car 1 1 739488 739490,
      Book_car 1 1 739490 739492,
      Book_car 1 1 739491 739493]"

definition alice :: user where
  "alice = \<lparr>User_id = 1, User_name = ''Alice'', User_email = ''alice@example.com''\<rparr>"

definition booking1 :: booking where
  "booking1 = \<lparr>Booking_id = 1, Booking_user = alice, Booking_car = 1,
     Booking_start_date = 739488, Booking_end_date = 739490\<rparr>"

definition booking2 :: booking where
  "booking2 = \<lparr>Booking_id = 2, Booking_user = alice, Booking_car = 1,
     Booking_start_date = 739491, Booking_end_date = 739493\<rparr>"

definition peugeot :: "booking list \<Rightarrow> car" where
  "peugeot bs = \<lparr>Car_id = 1, Car_name = ''Peugeot 208'', Car_car_type = ''Economy'',
     Car_price_per_day = 45, Car_bookings = bs\<rparr>"

definition after_scenario :: state where
  "after_scenario =
     \<lparr>User_id_counter = 2, Car_id_counter = 2, Booking_id_counter = 3,
      users = [(1, alice)],
      cars = [(1, peugeot [booking1, booking2])],
      bookings = [(1, booking1), (2, booking2)]\<rparr>"

text \<open>
  Requests to the module's service: a registration, a booking, a booking whose end date
  is before its start date, and a listing.
\<close>

definition requests :: "request list" where
  "requests =
     [Post_users (Some ''Alice'') (Some ''alice@example.com''),
      Post_book \<lparr>data_user_id = Some 1, data_car_id = Some 1,
                 data_start_date = Some 739488, data_end_date = Some 739490\<rparr>,
      Post_book \<lparr>data_user_id = Some 1, data_car_id = Some 2,
                 data_start_date = Some 739485, data_end_date = Some 739480\<rparr>,
      Get_bookings]"

section \<open>The availability check\<close>

lemma is_available_loop_iff:
  "is_available_loop bs start_date end_date \<longleftrightarrow>
     \<not> (\<exists>b \<in> set bs. start_date \<le> Booking_end_date b \<and> Booking_start_date b \<le> end_date)"
  by (induction bs) auto

text \<open>
  Claim C2. A car is reported available for the range from \<open>start_date\<close> to \<open>end_date\<close>
  exactly when none of its bookings, from \<open>s\<close> to \<open>e\<close>, has \<open>start_date \<le> e\<close> and
  \<open>s \<le> end_date\<close>. In particular a requested range that touches a booked range, starting
  on its last day or ending on its first day, is reported unavailable; here both are
  ranges, each with its start no later than its end.
\<close>

theorem is_available_closed_interval:
  "(is_available c start_date end_date \<longleftrightarrow>
      \<not> (\<exists>b \<in> set (Car_bookings c).
            start_date \<le> Booking_end_date b \<and> Booking_start_date b \<le> end_date))
   \<and> (\<forall>b \<in> set (Car_bookings c).
         Booking_start_date b \<le> Booking_end_date b \<and> start_date \<le> end_date \<and>
         (start_date = Booking_end_date b \<or> end_date = Booking_start_date b)
         \<longrightarrow> \<not> is_available c start_date end_date)"
  unfolding is_available_def is_available_loop_iff by (intro conjI ballI impI; force)

theorem is_available_closed_interval_witness:
  "\<not> is_available
       \<lparr>Car_id = 1, Car_name = ''Peugeot 208'', Car_car_type = ''Economy'',
        Car_price_per_day = 45,
        Car_bookings =
          [\<lparr>Booking_id = 1,
            Booking_user = \<lparr>User_id = 1, User_name = ''Alice'', User_email = ''alice@example.com''\<rparr>,
            Booking_car = 1, Booking_start_date = 739488, Booking_end_date = 739490\<rparr>]\<rparr>
       739490 739492
   \<and> is_available
       \<lparr>Car_id = 1, Car_name = ''Peugeot 208'', Car_car_type = ''Economy'',
        Car_price_per_day = 45,
        Car_bookings =
          [\<lparr>Booking_id = 1,
            Booking_user = \<lparr>User_id = 1, User_name = ''Alice'', User_email = ''alice@example.com''\<rparr>,
            Booking_car = 1, Booking_start_date = 739488, Booking_end_date = 739490\<rparr>]\<rparr>
       739491 739493"
  using is_available_closed_interval
    [of "\<lparr>Car_id = 1, Car_name = ''Peugeot 208'', Car_car_type = ''Economy'',
        Car_price_per_day = 45,
        Car_bookings =
          [\<lparr>Booking_id = 1,
            Booking_user = \<lparr>User_id = 1, User_name = ''Alice'', User_email = ''alice@example.com''\<rparr>,
            Booking_car = 1, Booking_start_date = 739488, Booking_end_date = 739490\<rparr>]\<rparr>"
        739490 739492]
   is_available_closed_interval
    [of "\<lparr>Car_id = 1, Car_name = ''Peugeot 208'', Car_car_type = ''Economy'',
        Car_price_per_day = 45,
        Car_bookings =
          [\<lparr>Booking_id = 1,
            Booking_user = \<lparr>User_id = 1, User_name = ''Alice'', User_email = ''alice@example.com''\<rparr>,
            Booking_car = 1, Booking_start_date = 739488, Booking_end_date = 739490\<rparr>]\<rparr>"
        739491 739493]
  by simp

section \<open>Evaluation of the concrete run\<close>

lemmas service_defs =
  RentalService_init_def add_user_def add_car_def book_car_def User_init_def Car_init_def
  Booking_init_def get_user_def get_car_def is_available_def

lemmas example_defs = alice_def booking1_def booking2_def peugeot_def

lemma run_scenario: "run RentalService_init scenario = after_scenario"
  by (simp add: scenario_def after_scenario_def service_defs example_defs)

lemma results_scenario:
  "results RentalService_init scenario =
     [Car_result (peugeot []), User_result alice, Booking_result booking1,
      Raised Car_is_not_available, Booking_result booking2]"
  by (simp add: scenario_def service_defs example_defs)

section \<open>Dictionaries as association lists\<close>

lemma set_update_subset: "set (AList.update k v al) \<subseteq> insert (k, v) (set al)"
  by (induction al) auto

lemma set_updateD: "x \<in> set (AList.update k v al) \<Longrightarrow> x = (k, v) \<or> x \<in> set al"
  using set_update_subset [of k v al] by auto

section \<open>Failures of \<^verbatim>\<open>book_car\<close>\<close>

lemma book_car_Inl_state:
  "fst (book_car user_id car_id start_date end_date s) = Inl e \<Longrightarrow>
     snd (book_car user_id car_id start_date end_date s) = s"
  by (auto simp: book_car_def Booking_init_def Let_def split: option.splits if_splits)

lemma book_car_InrD:
  assumes "fst (book_car user_id car_id start_date end_date s) = Inr b"
  obtains u c where "get_user s user_id = Some u" and "get_car s car_id = Some c"
    and "is_available c start_date end_date"
    and "b = fst (Booking_init u c start_date end_date s)"
    and "snd (book_car user_id car_id start_date end_date s) =
           s\<lparr>Booking_id_counter := Booking_id_counter s + 1,
             cars := AList.update car_id (c\<lparr>Car_bookings := Car_bookings c @ [b]\<rparr>) (cars s),
             bookings := AList.update (Booking_id b) b (bookings s)\<rparr>"
  using assms
  by (auto simp: book_car_def Booking_init_def Let_def split: option.splits if_splits)

lemma step_Book_car_state:
  "snd (step s (Book_car user_id car_id start_date end_date)) =
     snd (book_car user_id car_id start_date end_date s)"
  by (simp split: prod.splits sum.splits)

section \<open>No double booking\<close>

lemma no_overlap_snoc:
  assumes "sorted_wrt (\<lambda>a b. \<not> overlap a b) bs"
    and "is_available_loop bs (Booking_start_date b) (Booking_end_date b)"
  shows "sorted_wrt (\<lambda>a b. \<not> overlap a b) (bs @ [b])"
  using assms by (auto simp: sorted_wrt_append is_available_loop_iff overlap_def)

lemma cars_disjoint_book_car:
  assumes "cars_disjoint s"
  shows "cars_disjoint (snd (book_car user_id car_id start_date end_date s))"
proof (cases "fst (book_car user_id car_id start_date end_date s)")
  case (Inl e)
  with assms show ?thesis by (simp add: book_car_Inl_state)
next
  case (Inr b)
  then obtain u c where c: "get_car s car_id = Some c"
    and av: "is_available c start_date end_date"
    and b: "b = fst (Booking_init u c start_date end_date s)"
    and s': "snd (book_car user_id car_id start_date end_date s) =
           s\<lparr>Booking_id_counter := Booking_id_counter s + 1,
             cars := AList.update car_id (c\<lparr>Car_bookings := Car_bookings c @ [b]\<rparr>) (cars s),
             bookings := AList.update (Booking_id b) b (bookings s)\<rparr>"
    by (rule book_car_InrD)
  have cin: "c \<in> set (items s)"
    using c by (auto simp: get_car_def items_def dest: map_of_SomeD intro: rev_image_eqI)
  have "sorted_wrt (\<lambda>a b. \<not> overlap a b) (Car_bookings c @ [b])"
    using assms cin av
    by (auto simp: cars_disjoint_def is_available_def b Booking_init_def intro!: no_overlap_snoc)
  then show ?thesis
    using assms unfolding cars_disjoint_def items_def s'
    by (auto dest!: set_updateD)
qed

lemma cars_disjoint_step:
  assumes "cars_disjoint s"
  shows "cars_disjoint (snd (step s x))"
proof (cases x)
  case (Add_user n e)
  then show ?thesis using assms
    by (simp add: add_user_def User_init_def cars_disjoint_def items_def)
next
  case (Add_car n t p)
  then show ?thesis using assms
    by (auto simp: add_car_def Car_init_def cars_disjoint_def items_def dest!: set_updateD)
next
  case (Book_car u c sd ed)
  then show ?thesis
    using cars_disjoint_book_car [OF assms] by (simp only: step_Book_car_state)
qed (use assms in simp_all)

lemma cars_disjoint_run: "cars_disjoint s \<Longrightarrow> cars_disjoint (run s xs)"
  by (induction xs arbitrary: s) (simp_all add: cars_disjoint_step)

text \<open>
  Claim C1. After any sequence of calls on a new service (registrations of users and
  cars, bookings that succeed or fail, listings), no car of the store lists two
  bookings whose date ranges overlap in the closed-interval sense.
\<close>

theorem bookings_never_overlap:
  "\<forall>c \<in> set (items (run RentalService_init xs)).
     \<forall>i j. i < j \<and> j < length (Car_bookings c) \<longrightarrow>
       \<not> overlap (Car_bookings c ! i) (Car_bookings c ! j)"
proof -
  have "cars_disjoint RentalService_init"
    by (simp add: cars_disjoint_def items_def RentalService_init_def)
  then have "cars_disjoint (run RentalService_init xs)"
    by (rule cars_disjoint_run)
  then show ?thesis
    by (auto simp: cars_disjoint_def sorted_wrt_iff_nth_less)
qed

theorem bookings_never_overlap_witness:
  "items (run RentalService_init scenario) = [peugeot [booking1, booking2]]
   \<and> \<not> overlap booking1 booking2"
proof -
  have its: "items (run RentalService_init scenario) = [peugeot [booking1, booking2]]"
    by (simp add: run_scenario after_scenario_def items_def)
  then have "peugeot [booking1, booking2] \<in> set (items (run RentalService_init scenario))"
    by simp
  with bookings_never_overlap [of scenario]
  have "\<forall>i j. i < j \<and> j < length (Car_bookings (peugeot [booking1, booking2])) \<longrightarrow>
          \<not> overlap (Car_bookings (peugeot [booking1, booking2]) ! i)
               (Car_bookings (peugeot [booking1, booking2]) ! j)"
    by (rule bspec)
  then have "(0::nat) < 1 \<and> 1 < length (Car_bookings (peugeot [booking1, booking2])) \<longrightarrow>
          \<not> overlap (Car_bookings (peugeot [booking1, booking2]) ! 0)
               (Car_bookings (peugeot [booking1, booking2]) ! 1)"
    by blast
  then have "\<not> overlap booking1 booking2"
    by (simp add: peugeot_def)
  with its show ?thesis by simp
qed

section \<open>Errors of \<^verbatim>\<open>book_car\<close>\<close>

text \<open>
  Claim C4. If \<open>user_id\<close> is not a key of the \<^verbatim>\<open>users\<close> dictionary, \<^verbatim>\<open>book_car\<close> raises
  the error of the unknown user, whatever the car identifier and the two dates are,
  and changes nothing.
\<close>

theorem book_car_unknown_user:
  "get_user s user_id = None \<Longrightarrow>
     book_car user_id car_id start_date end_date s = (Inl (User_does_not_exist user_id), s)"
  by (simp add: book_car_def)

theorem book_car_unknown_user_witness:
  "get_user (run RentalService_init scenario) 7 = None
   \<and> book_car 7 99 739492 739488 (run RentalService_init scenario) =
       (Inl (User_does_not_exist 7), run RentalService_init scenario)"
proof -
  have h: "get_user (run RentalService_init scenario) 7 = None"
    by (simp add: run_scenario after_scenario_def get_user_def)
  from h book_car_unknown_user [OF h, of 99 739492 739488] show ?thesis
    by simp
qed

text \<open>
  Claim C7. If \<^verbatim>\<open>book_car\<close> raises, the state (the three dictionaries, the booking
  list of every car and the three counters) is as before the call, and the same call
  on it raises the same error again.
\<close>

theorem book_car_failure_leaves_state:
  "fst (book_car user_id car_id start_date end_date s) = Inl e \<Longrightarrow>
     snd (book_car user_id car_id start_date end_date s) = s \<and>
     book_car user_id car_id start_date end_date
       (snd (book_car user_id car_id start_date end_date s)) = (Inl e, s)"
  by (auto simp: book_car_def Booking_init_def Let_def split: option.splits if_splits)

theorem book_car_failure_leaves_state_witness:
  "fst (book_car 1 1 739490 739492 (run RentalService_init scenario)) = Inl Car_is_not_available
   \<and> snd (book_car 1 1 739490 739492 (run RentalService_init scenario)) =
       run RentalService_init scenario
   \<and> book_car 1 1 739490 739492
        (snd (book_car 1 1 739490 739492 (run RentalService_init scenario))) =
       (Inl Car_is_not_available, run RentalService_init scenario)"
proof -
  have h: "fst (book_car 1 1 739490 739492 (run RentalService_init scenario)) =
             Inl Car_is_not_available"
    by (simp add: run_scenario after_scenario_def book_car_def get_user_def get_car_def
        is_available_def example_defs)
  from h book_car_failure_leaves_state [OF h] show ?thesis
    by blast
qed

section \<open>The listings\<close>

text \<open>
  Claim C9. \<^verbatim>\<open>list_cars\<close> and \<^verbatim>\<open>list_bookings\<close> leave the state as it is, and a second
  call right after the first returns the same sequence.
\<close>

theorem listing_is_read_only:
  "snd (step s List_cars) = s \<and>
   fst (step (snd (step s List_cars)) List_cars) = fst (step s List_cars) \<and>
   snd (step s List_bookings) = s \<and>
   fst (step (snd (step s List_bookings)) List_bookings) = fst (step s List_bookings)"
  by simp

section \<open>Date ranges\<close>

text \<open>
  \<^verbatim>\<open>book_car\<close> does not compare the two dates: with a user and a car that exist, a call
  whose end date is before its start date returns a booking.
\<close>

theorem book_car_accepts_reversed_range:
  "get_user (run RentalService_init scenario) 1 = Some alice
   \<and> get_car (run RentalService_init scenario) 1 = Some (peugeot [booking1, booking2])
   \<and> (739480 :: date) < 739485
   \<and> fst (book_car 1 1 739485 739480 (run RentalService_init scenario)) =
       Inr \<lparr>Booking_id = 3, Booking_user = alice, Booking_car = 1,
            Booking_start_date = 739485, Booking_end_date = 739480\<rparr>"
  by (simp add: run_scenario after_scenario_def book_car_def get_user_def get_car_def
      is_available_def Booking_init_def example_defs)

text \<open>
  Claim C5, amended. The range is checked by \<^verbatim>\<open>book_car_endpoint\<close>, before it calls
  \<^verbatim>\<open>book_car\<close>: a payload whose four fields convert and whose end date is before its
  start date is answered with status 400 and the message
  \<^verbatim>\<open>End date must be after start date\<close>, and the state is unchanged, whether or not the
  user and the car exist.
\<close>

theorem book_car_endpoint_rejects_reversed_range:
  "data_user_id data = Some user_id \<Longrightarrow> data_car_id data = Some car_id \<Longrightarrow>
   data_start_date data = Some start_date \<Longrightarrow> data_end_date data = Some end_date \<Longrightarrow>
   end_date < start_date \<Longrightarrow>
     book_car_endpoint data s = ((Error_body End_date_must_be_after_start_date, 400), s)"
  by (simp add: book_car_endpoint_def)

theorem book_car_endpoint_rejects_reversed_range_witness:
  "(739480 :: date) < 739485
   \<and> book_car_endpoint
        \<lparr>data_user_id = Some 1, data_car_id = Some 1,
         data_start_date = Some 739485, data_end_date = Some 739480\<rparr>
        (run RentalService_init scenario) =
       ((Error_body End_date_must_be_after_start_date, 400), run RentalService_init scenario)"
  using book_car_endpoint_rejects_reversed_range
    [of "\<lparr>data_user_id = Some 1, data_car_id = Some 1,
         data_start_date = Some 739485, data_end_date = Some 739480\<rparr>"
        1 1 739485 739480 "run RentalService_init scenario"]
  by simp

text \<open>
  A call of \<^verbatim>\<open>book_car\<close> with a reversed range puts a booking into the ledger whose
  start date is after its end date.
\<close>

theorem ledger_holds_reversed_range:
  "ledger (run RentalService_init (scenario @ [Book_car 1 1 739485 739480])) =
     [booking1, booking2,
      \<lparr>Booking_id = 3, Booking_user = alice, Booking_car = 1,
       Booking_start_date = 739485, Booking_end_date = 739480\<rparr>]
   \<and> \<not> (739485 :: date) \<le> 739480"
  by (simp add: scenario_def ledger_def service_defs example_defs)

lemma dates_ordered_book_car:
  assumes "dates_ordered s" and "start_date \<le> end_date"
  shows "dates_ordered (snd (book_car user_id car_id start_date end_date s))"
proof (cases "fst (book_car user_id car_id start_date end_date s)")
  case (Inl e)
  with assms show ?thesis by (simp add: book_car_Inl_state)
next
  case (Inr b)
  then obtain u c where b: "b = fst (Booking_init u c start_date end_date s)"
    and s': "snd (book_car user_id car_id start_date end_date s) =
           s\<lparr>Booking_id_counter := Booking_id_counter s + 1,
             cars := AList.update car_id (c\<lparr>Car_bookings := Car_bookings c @ [b]\<rparr>) (cars s),
             bookings := AList.update (Booking_id b) b (bookings s)\<rparr>"
    by (rule book_car_InrD)
  have "Booking_start_date b \<le> Booking_end_date b"
    using assms(2) by (simp add: b Booking_init_def)
  then show ?thesis
    using assms(1) unfolding dates_ordered_def ledger_def s'
    by (auto dest!: set_updateD)
qed

lemma dates_ordered_handle:
  assumes "dates_ordered s"
  shows "dates_ordered (snd (handle s r))"
proof (cases r)
  case Get_cars
  with assms show ?thesis by (simp add: list_cars_endpoint_def)
next
  case (Post_users name email)
  with assms show ?thesis
    by (auto simp: register_user_def add_user_def User_init_def dates_ordered_def ledger_def
        split: option.splits)
next
  case (Post_book data)
  show ?thesis
  proof (cases "\<exists>u c sd ed. data_user_id data = Some u \<and> data_car_id data = Some c \<and>
      data_start_date data = Some sd \<and> data_end_date data = Some ed \<and> sd \<le> ed")
    case True
    then obtain u c sd ed where d: "data_user_id data = Some u" "data_car_id data = Some c"
      "data_start_date data = Some sd" "data_end_date data = Some ed" and le: "sd \<le> ed"
      by blast
    have "snd (book_car_endpoint data s) = snd (book_car u c sd ed s)"
      using d le by (simp add: book_car_endpoint_def split: prod.splits sum.splits)
    with dates_ordered_book_car [OF assms le] Post_book show ?thesis by simp
  next
    case False
    then have "snd (book_car_endpoint data s) = s"
      by (auto simp: book_car_endpoint_def split: option.splits)
    with assms Post_book show ?thesis by simp
  qed
next
  case Get_bookings
  with assms show ?thesis by (simp add: list_bookings_endpoint_def)
qed

lemma dates_ordered_serve: "dates_ordered s \<Longrightarrow> dates_ordered (serve s rs)"
  by (induction rs arbitrary: s) (simp_all add: dates_ordered_handle)

lemma rental_service_eq:
  "rental_service =
     \<lparr>User_id_counter = 1, Car_id_counter = 4, Booking_id_counter = 1,
      users = [],
      cars =
        [(1, \<lparr>Car_id = 1, Car_name = ''Peugeot 208'', Car_car_type = ''Economy'',
               Car_price_per_day = 45, Car_bookings = []\<rparr>),
         (2, \<lparr>Car_id = 2, Car_name = ''BMW X5'', Car_car_type = ''SUV'',
               Car_price_per_day = 120, Car_bookings = []\<rparr>),
         (3, \<lparr>Car_id = 3, Car_name = ''Tesla Model 3'', Car_car_type = ''Electric'',
               Car_price_per_day = 150, Car_bookings = []\<rparr>)],
      bookings = []\<rparr>"
  by (simp add: rental_service_def service_defs)

text \<open>
  Claim C3, amended. After any sequence of requests to the endpoints of the module's
  service, every booking of the ledger has its start date no later than its end date:
  \<^verbatim>\<open>book_car_endpoint\<close> calls \<^verbatim>\<open>book_car\<close> only with such dates.
\<close>

theorem endpoint_bookings_ordered:
  "\<forall>b \<in> set (ledger (serve rental_service rs)). Booking_start_date b \<le> Booking_end_date b"
proof -
  have "dates_ordered rental_service"
    by (simp add: dates_ordered_def ledger_def rental_service_eq)
  then have "dates_ordered (serve rental_service rs)"
    by (rule dates_ordered_serve)
  then show ?thesis by (simp add: dates_ordered_def)
qed

lemma ledger_requests: "ledger (serve rental_service requests) = [booking1]"
  by (simp add: requests_def rental_service_eq ledger_def register_user_def
      book_car_endpoint_def list_bookings_endpoint_def service_defs example_defs)

theorem endpoint_bookings_ordered_witness:
  "ledger (serve rental_service requests) = [booking1]
   \<and> Booking_start_date booking1 \<le> Booking_end_date booking1"
proof -
  have "booking1 \<in> set (ledger (serve rental_service requests))"
    by (simp add: ledger_requests)
  with endpoint_bookings_ordered [of requests]
  have "Booking_start_date booking1 \<le> Booking_end_date booking1"
    by (rule bspec)
  then show ?thesis by (simp add: ledger_requests)
qed

section \<open>Identifiers\<close>

lemma step_counters_mono:
  "User_id_counter s \<le> User_id_counter (snd (step s x))"
  "Car_id_counter s \<le> Car_id_counter (snd (step s x))"
  "Booking_id_counter s \<le> Booking_id_counter (snd (step s x))"
  by (cases x;
      auto simp: add_user_def User_init_def add_car_def Car_init_def book_car_def
        Booking_init_def Let_def split: option.splits prod.splits sum.splits if_splits)+

lemma step_User_result:
  "fst (step s x) = User_result u \<Longrightarrow>
     User_id u = User_id_counter s \<and> User_id_counter (snd (step s x)) = User_id_counter s + 1"
  by (cases x)
    (auto simp: add_user_def User_init_def add_car_def Car_init_def
      split: prod.splits sum.splits)

lemma step_Car_result:
  "fst (step s x) = Car_result c \<Longrightarrow>
     Car_id c = Car_id_counter s \<and> Car_id_counter (snd (step s x)) = Car_id_counter s + 1"
  by (cases x)
    (auto simp: add_user_def User_init_def add_car_def Car_init_def
      split: prod.splits sum.splits)

lemma step_Booking_result:
  "fst (step s x) = Booking_result b \<Longrightarrow>
     Booking_id b = Booking_id_counter s \<and>
     Booking_id_counter (snd (step s x)) = Booking_id_counter s + 1"
  by (cases x)
    (auto simp: add_user_def User_init_def add_car_def Car_init_def book_car_def
      Booking_init_def Let_def split: option.splits prod.splits sum.splits if_splits)

lemma user_ids_Cons:
  "user_ids (r # rs) = (case r of User_result u \<Rightarrow> User_id u # user_ids rs | _ \<Rightarrow> user_ids rs)"
  by (cases r) simp_all

lemma car_ids_Cons:
  "car_ids (r # rs) = (case r of Car_result c \<Rightarrow> Car_id c # car_ids rs | _ \<Rightarrow> car_ids rs)"
  by (cases r) simp_all

lemma booking_ids_Cons:
  "booking_ids (r # rs) =
     (case r of Booking_result b \<Rightarrow> Booking_id b # booking_ids rs | _ \<Rightarrow> booking_ids rs)"
  by (cases r) simp_all

lemma user_ids_increasing:
  "sorted_wrt (<) (user_ids (results s xs)) \<and>
   (\<forall>i \<in> set (user_ids (results s xs)). User_id_counter s \<le> i)"
proof (induction xs arbitrary: s)
  case Nil
  show ?case by simp
next
  case (Cons x xs)
  note IH = Cons.IH [of "snd (step s x)"]
  show ?case
  proof (cases "fst (step s x)")
    case (User_result u)
    from step_User_result [OF this] IH User_result show ?thesis
      by (fastforce simp: user_ids_Cons)
  qed (use IH step_counters_mono(1) [of s x] in \<open>fastforce simp: user_ids_Cons\<close>)+
qed

lemma car_ids_increasing:
  "sorted_wrt (<) (car_ids (results s xs)) \<and>
   (\<forall>i \<in> set (car_ids (results s xs)). Car_id_counter s \<le> i)"
proof (induction xs arbitrary: s)
  case Nil
  show ?case by simp
next
  case (Cons x xs)
  note IH = Cons.IH [of "snd (step s x)"]
  show ?case
  proof (cases "fst (step s x)")
    case (Car_result c)
    from step_Car_result [OF this] IH Car_result show ?thesis
      by (fastforce simp: car_ids_Cons)
  qed (use IH step_counters_mono(2) [of s x] in \<open>fastforce simp: car_ids_Cons\<close>)+
qed

lemma booking_ids_increasing:
  "sorted_wrt (<) (booking_ids (results s xs)) \<and>
   (\<forall>i \<in> set (booking_ids (results s xs)). Booking_id_counter s \<le> i)"
proof (induction xs arbitrary: s)
  case Nil
  show ?case by simp
next
  case (Cons x xs)
  note IH = Cons.IH [of "snd (step s x)"]
  show ?case
  proof (cases "fst (step s x)")
    case (Booking_result b)
    from step_Booking_result [OF this] IH Booking_result show ?thesis
      by (fastforce simp: booking_ids_Cons)
  qed (use IH step_counters_mono(3) [of s x] in \<open>fastforce simp: booking_ids_Cons\<close>)+
qed

lemma increasing_distinct: "sorted_wrt (<) (xs :: int list) \<Longrightarrow> distinct xs"
  by (induction xs) auto

text \<open>
  Claim C6. From any state and for any sequence of calls, the identifiers given to the
  users created, to the cars created and to the bookings created are each a strictly
  increasing sequence, so none is given twice.
\<close>

theorem identifiers_strictly_increasing:
  "sorted_wrt (<) (user_ids (results s xs)) \<and> distinct (user_ids (results s xs)) \<and>
   sorted_wrt (<) (car_ids (results s xs)) \<and> distinct (car_ids (results s xs)) \<and>
   sorted_wrt (<) (booking_ids (results s xs)) \<and> distinct (booking_ids (results s xs))"
  using user_ids_increasing [of s xs] car_ids_increasing [of s xs]
    booking_ids_increasing [of s xs]
  by (simp add: increasing_distinct)

theorem identifiers_strictly_increasing_witness:
  "user_ids (results RentalService_init scenario) = [1]
   \<and> car_ids (results RentalService_init scenario) = [1]
   \<and> booking_ids (results RentalService_init scenario) = [1, 2]
   \<and> sorted_wrt (<) (booking_ids (results RentalService_init scenario))
   \<and> distinct (booking_ids (results RentalService_init scenario))"
  using identifiers_strictly_increasing [of RentalService_init scenario]
  by (simp add: results_scenario example_defs)

section \<open>The list of cars\<close>

lemma update_fresh: "k \<notin> fst ` set al \<Longrightarrow> AList.update k v al = al @ [(k, v)]"
  by (induction al) auto

lemma map_update_same:
  "map_of al k = Some v \<Longrightarrow> f v' = f v \<Longrightarrow>
     map (\<lambda>kv. f (snd kv)) (AList.update k v' al) = map (\<lambda>kv. f (snd kv)) al"
  by (induction al) auto

lemma keys_update_same:
  "map_of al k = Some v \<Longrightarrow> map fst (AList.update k v' al) = map fst al"
  by (induction al) auto

lemma list_cars_book_car:
  "list_cars (snd (book_car user_id car_id start_date end_date s)) = list_cars s"
proof (cases "fst (book_car user_id car_id start_date end_date s)")
  case (Inl e)
  then show ?thesis by (simp add: book_car_Inl_state)
next
  case (Inr b)
  then obtain u c where c: "get_car s car_id = Some c"
    and s': "snd (book_car user_id car_id start_date end_date s) =
           s\<lparr>Booking_id_counter := Booking_id_counter s + 1,
             cars := AList.update car_id (c\<lparr>Car_bookings := Car_bookings c @ [b]\<rparr>) (cars s),
             bookings := AList.update (Booking_id b) b (bookings s)\<rparr>"
    by (rule book_car_InrD)
  have "map_of (cars s) car_id = Some c"
    using c by (simp add: get_car_def)
  moreover have "Car_to_dict (c\<lparr>Car_bookings := Car_bookings c @ [b]\<rparr>) = Car_to_dict c"
    by (simp add: Car_to_dict_def)
  ultimately show ?thesis
    unfolding s' list_cars_def by (simp add: map_update_same)
qed

lemma keys_book_car:
  "map fst (cars (snd (book_car user_id car_id start_date end_date s))) = map fst (cars s)"
proof (cases "fst (book_car user_id car_id start_date end_date s)")
  case (Inl e)
  then show ?thesis by (simp add: book_car_Inl_state)
next
  case (Inr b)
  then obtain u c where c: "get_car s car_id = Some c"
    and s': "snd (book_car user_id car_id start_date end_date s) =
           s\<lparr>Booking_id_counter := Booking_id_counter s + 1,
             cars := AList.update car_id (c\<lparr>Car_bookings := Car_bookings c @ [b]\<rparr>) (cars s),
             bookings := AList.update (Booking_id b) b (bookings s)\<rparr>"
    by (rule book_car_InrD)
  have "map_of (cars s) car_id = Some c"
    using c by (simp add: get_car_def)
  then show ?thesis
    unfolding s' by (simp add: keys_update_same)
qed

lemma Car_id_counter_book_car:
  "Car_id_counter (snd (book_car user_id car_id start_date end_date s)) = Car_id_counter s"
  by (auto simp: book_car_def Booking_init_def Let_def split: option.splits)

lemma list_cars_step:
  assumes "car_keys_below s"
  shows "car_keys_below (snd (step s x)) \<and>
         list_cars (snd (step s x)) = list_cars s @ cars_added (Car_id_counter s) [x] \<and>
         Car_id_counter (snd (step s x)) = Car_id_counter s + int (length (cars_added 0 [x]))"
proof (cases x)
  case (Add_user n e)
  with assms show ?thesis
    by (simp add: add_user_def User_init_def car_keys_below_def list_cars_def)
next
  case (Add_car n t p)
  have fresh: "Car_id_counter s \<notin> fst ` set (cars s)"
    using assms by (auto simp: car_keys_below_def)
  show ?thesis
    using assms Add_car
    by (auto simp: add_car_def Car_init_def car_keys_below_def list_cars_def
        update_fresh [OF fresh] Car_to_dict_def)
next
  case (Book_car u c sd ed)
  with assms show ?thesis
    by (simp only: step_Book_car_state)
      (simp add: car_keys_below_def keys_book_car list_cars_book_car Car_id_counter_book_car)
qed (use assms in simp_all)

lemma cars_added_Cons:
  "cars_added i (x # xs) = cars_added i [x] @ cars_added (i + int (length (cars_added 0 [x]))) xs"
  by (cases x) simp_all

lemma list_cars_run:
  "car_keys_below s \<Longrightarrow>
     list_cars (run s xs) = list_cars s @ cars_added (Car_id_counter s) xs"
proof (induction xs arbitrary: s)
  case Nil
  show ?case by simp
next
  case (Cons x xs)
  from list_cars_step [OF Cons.prems, of x] Cons.IH [of "snd (step s x)"]
  show ?case
    by (simp add: cars_added_Cons [of _ x xs])
qed

lemma list_cars_run_bookings:
  "list_all is_Book_car xs \<Longrightarrow> list_cars (run s xs) = list_cars s"
proof (induction xs arbitrary: s)
  case Nil
  show ?case by simp
next
  case (Cons x xs)
  then obtain u c sd ed where x: "x = Book_car u c sd ed"
    by (cases x) simp_all
  from Cons have "list_cars (run (snd (step s x)) xs) = list_cars (snd (step s x))"
    by simp
  then show ?case
    unfolding x by (simp only: run.simps step_Book_car_state list_cars_book_car)
qed

text \<open>
  Claim C8. On a new service, \<^verbatim>\<open>list_cars\<close> returns the cars registered so far, in
  the order of their registration, whatever bookings and other calls came between;
  and from any state, a sequence of \<^verbatim>\<open>book_car\<close> calls, successful or not, leaves
  the result of \<^verbatim>\<open>list_cars\<close> as it was.
\<close>

theorem list_cars_insertion_order:
  "list_cars (run RentalService_init xs) = cars_added 1 xs \<and>
   (list_all is_Book_car xs \<longrightarrow> list_cars (run s xs) = list_cars s)"
proof -
  have "car_keys_below RentalService_init"
    by (simp add: car_keys_below_def RentalService_init_def)
  from list_cars_run [OF this, of xs]
  have "list_cars (run RentalService_init xs) = cars_added 1 xs"
    by (simp add: RentalService_init_def list_cars_def)
  then show ?thesis
    by (simp add: list_cars_run_bookings)
qed

theorem list_cars_insertion_order_witness:
  "list_cars (run RentalService_init scenario) =
     [\<lparr>cd_id = 1, cd_name = ''Peugeot 208'', cd_type = ''Economy'', cd_price_per_day = 45\<rparr>]
   \<and> list_all is_Book_car [Book_car 1 1 739495 739496, Book_car 1 1 739496 739497, Book_car 7 1 739500 739501]
   \<and> list_cars (run (run RentalService_init scenario)
        [Book_car 1 1 739495 739496, Book_car 1 1 739496 739497, Book_car 7 1 739500 739501]) =
     [\<lparr>cd_id = 1, cd_name = ''Peugeot 208'', cd_type = ''Economy'', cd_price_per_day = 45\<rparr>]"
proof -
  have c: "cars_added 1 scenario =
     [\<lparr>cd_id = 1, cd_name = ''Peugeot 208'', cd_type = ''Economy'', cd_price_per_day = 45\<rparr>]"
    by (simp add: scenario_def)
  have b: "list_all is_Book_car
     [Book_car 1 1 739495 739496, Book_car 1 1 739496 739497, Book_car 7 1 739500 739501]"
    by simp
  from list_cars_insertion_order [of scenario]
  have 1: "list_cars (run RentalService_init scenario) = cars_added 1 scenario"
    by (rule conjunct1)
  from list_cars_insertion_order
    [of "[Book_car 1 1 739495 739496, Book_car 1 1 739496 739497, Book_car 7 1 739500 739501]"
        "run RentalService_init scenario"] b
  have 2: "list_cars (run (run RentalService_init scenario)
        [Book_car 1 1 739495 739496, Book_car 1 1 739496 739497, Book_car 7 1 739500 739501]) =
      list_cars (run RentalService_init scenario)"
    by blast
  from 1 2 b c show ?thesis by simp
qed

section \<open>The ledger and the booking lists of the cars\<close>

lemma keys_ok_add_user: "keys_ok s \<Longrightarrow> keys_ok (snd (add_user n e s))"
  unfolding keys_ok_def add_user_def User_init_def
  by (simp add: distinct_update update_conv') force

lemma keys_ok_add_car: "keys_ok s \<Longrightarrow> keys_ok (snd (add_car n t p s))"
  unfolding keys_ok_def add_car_def Car_init_def
  by (simp add: distinct_update update_conv') force

lemma links_ok_add_user:
  assumes "keys_ok s" and "links_ok s"
  shows "links_ok (snd (add_user n e s))"
proof -
  have fresh: "map_of (users s) k = Some u \<Longrightarrow> k \<noteq> User_id_counter s" for k u
    using assms(1) by (fastforce simp: keys_ok_def)
  show ?thesis
    using assms(2) unfolding links_ok_def add_user_def User_init_def
    by (simp add: update_conv') (metis fresh)
qed

lemma links_ok_add_car:
  assumes "keys_ok s" and "links_ok s"
  shows "links_ok (snd (add_car n t p s))"
proof -
  have fresh: "map_of (cars s) k = Some c \<Longrightarrow> k \<noteq> Car_id_counter s" for k c
    using assms(1) by (fastforce simp: keys_ok_def)
  show ?thesis
    using assms(2) unfolding links_ok_def add_car_def Car_init_def
    by (simp add: update_conv') (metis fresh)
qed

lemma keys_ok_book_car:
  assumes "keys_ok s"
  shows "keys_ok (snd (book_car user_id car_id start_date end_date s))"
proof (cases "fst (book_car user_id car_id start_date end_date s)")
  case (Inl e)
  with assms show ?thesis by (simp add: book_car_Inl_state)
next
  case (Inr b)
  then obtain u c where c: "get_car s car_id = Some c"
    and b: "b = fst (Booking_init u c start_date end_date s)"
    and s': "snd (book_car user_id car_id start_date end_date s) =
           s\<lparr>Booking_id_counter := Booking_id_counter s + 1,
             cars := AList.update car_id (c\<lparr>Car_bookings := Car_bookings c @ [b]\<rparr>) (cars s),
             bookings := AList.update (Booking_id b) b (bookings s)\<rparr>"
    by (rule book_car_InrD)
  have c': "map_of (cars s) car_id = Some c"
    using c by (simp add: get_car_def)
  have bid: "Booking_id b = Booking_id_counter s"
    by (simp add: b Booking_init_def)
  have cid: "Car_id c = car_id \<and> car_id < Car_id_counter s"
    using assms c' unfolding keys_ok_def by blast
  show ?thesis
    using assms cid unfolding keys_ok_def s'
    by (simp add: distinct_update update_conv' bid) force
qed

lemma links_ok_book_car:
  assumes k: "keys_ok s" and l: "links_ok s"
  shows "links_ok (snd (book_car user_id car_id start_date end_date s))"
proof (cases "fst (book_car user_id car_id start_date end_date s)")
  case (Inl e)
  with l show ?thesis by (simp add: book_car_Inl_state)
next
  case (Inr b)
  then obtain u c where u: "get_user s user_id = Some u" and c: "get_car s car_id = Some c"
    and b: "b = fst (Booking_init u c start_date end_date s)"
    and s': "snd (book_car user_id car_id start_date end_date s) =
           s\<lparr>Booking_id_counter := Booking_id_counter s + 1,
             cars := AList.update car_id (c\<lparr>Car_bookings := Car_bookings c @ [b]\<rparr>) (cars s),
             bookings := AList.update (Booking_id b) b (bookings s)\<rparr>"
    by (rule book_car_InrD)
  have mc: "map_of (cars s) car_id = Some c"
    using c by (simp add: get_car_def)
  have mu: "map_of (users s) user_id = Some u"
    using u by (simp add: get_user_def)
  have bid: "Booking_id b = Booking_id_counter s" and bu: "Booking_user b = u"
    and bc: "Booking_car b = Car_id c"
    by (simp_all add: b Booking_init_def)
  have cid: "Car_id c = car_id"
    using k mc unfolding keys_ok_def by blast
  have uid: "User_id u = user_id"
    using k mu unfolding keys_ok_def by blast
  have old_id: "Booking_id b' < Booking_id_counter s"
    if "map_of (bookings s) k' = Some b'" for k' b'
    using k that unfolding keys_ok_def by blast
  have old_key: "k' \<noteq> Booking_id_counter s"
    if "map_of (bookings s) k' = Some b'" for k' b'
    using k that unfolding keys_ok_def by blast
  have listed_old: "map_of (bookings s) (Booking_id b') = Some b'"
    if "map_of (cars s) k' = Some c'" "b' \<in> set (Car_bookings c')" for k' c' b'
    using l that unfolding links_ok_def by blast
  have listed_car: "Booking_car b' = k'"
    if "map_of (cars s) k' = Some c'" "b' \<in> set (Car_bookings c')" for k' c' b'
    using l that unfolding links_ok_def by blast
  have new_not_listed: "b \<notin> set (Car_bookings c')" if "map_of (cars s) k' = Some c'" for k' c'
  proof
    assume "b \<in> set (Car_bookings c')"
    from listed_old [OF that this] have "Booking_id b < Booking_id_counter s"
      by (rule old_id)
    with bid show False by simp
  qed
  have old_ne: "b' \<noteq> b" if "map_of (bookings s) k' = Some b'" for k' b'
    using old_id [OF that] bid by auto
  let ?c = "c\<lparr>Car_bookings := Car_bookings c @ [b]\<rparr>"
  let ?cars = "(map_of (cars s))(car_id \<mapsto> ?c)"
  let ?led = "(map_of (bookings s))(Booking_id_counter s \<mapsto> b)"
  have part1: "map_of (users s) (User_id (Booking_user b')) = Some (Booking_user b') \<and>
        (\<exists>c'. ?cars (Booking_car b') = Some c' \<and> count_list (Car_bookings c') b' = 1)"
    if led: "?led k' = Some b'" for k' b'
  proof (cases "k' = Booking_id_counter s")
    case True
    with led have "b' = b" by simp
    moreover have "count_list (Car_bookings c) b = 0"
      using new_not_listed [OF mc] by (simp add: count_list_0_iff)
    ultimately show ?thesis
      by (simp add: bu bc cid uid mu)
  next
    case False
    with led have old: "map_of (bookings s) k' = Some b'" by simp
    from l old have usr: "map_of (users s) (User_id (Booking_user b')) = Some (Booking_user b')"
      unfolding links_ok_def by blast
    from l old obtain c' where c': "map_of (cars s) (Booking_car b') = Some c'"
      and cnt: "count_list (Car_bookings c') b' = 1"
      unfolding links_ok_def by blast
    show ?thesis
    proof (cases "Booking_car b' = car_id")
      case True
      with c' mc have "c' = c" by simp
      with cnt old_ne [OF old] True usr show ?thesis by simp
    next
      case False
      with c' cnt usr show ?thesis by simp
    qed
  qed
  have part2: "Booking_car b' = k' \<and> ?led (Booking_id b') = Some b'"
    if car: "?cars k' = Some c'" and mem: "b' \<in> set (Car_bookings c')" for k' c' b'
  proof (cases "k' = car_id")
    case True
    with car have c'eq: "c' = ?c" by simp
    show ?thesis
    proof (cases "b' = b")
      case True
      with \<open>k' = car_id\<close> show ?thesis by (simp add: bc cid bid)
    next
      case False
      with mem c'eq have m: "b' \<in> set (Car_bookings c)" by simp
      from listed_old [OF mc m] listed_car [OF mc m] old_key [OF listed_old [OF mc m]]
      show ?thesis using \<open>k' = car_id\<close> by simp
    qed
  next
    case False
    with car have old: "map_of (cars s) k' = Some c'" by simp
    from listed_old [OF old mem] listed_car [OF old mem] old_key [OF listed_old [OF old mem]]
    show ?thesis by simp
  qed
  show ?thesis
    unfolding links_ok_def s' using part1 part2
    by (simp add: update_conv' bid del: fun_upd_apply)
qed

lemma step_Add_user_state: "snd (step s (Add_user n e)) = snd (add_user n e s)"
  by (simp split: prod.splits)

lemma step_Add_car_state: "snd (step s (Add_car n t p)) = snd (add_car n t p s)"
  by (simp split: prod.splits)

lemma keys_links_step:
  assumes "keys_ok s \<and> links_ok s"
  shows "keys_ok (snd (step s x)) \<and> links_ok (snd (step s x))"
proof (cases x)
  case (Add_user n e)
  with assms show ?thesis
    by (simp only: step_Add_user_state) (simp add: keys_ok_add_user links_ok_add_user)
next
  case (Add_car n t p)
  with assms show ?thesis
    by (simp only: step_Add_car_state) (simp add: keys_ok_add_car links_ok_add_car)
next
  case (Book_car u c sd ed)
  with assms show ?thesis
    by (simp only: step_Book_car_state) (simp add: keys_ok_book_car links_ok_book_car)
qed (use assms in simp_all)

lemma keys_links_run:
  "keys_ok s \<and> links_ok s \<Longrightarrow> keys_ok (run s xs) \<and> links_ok (run s xs)"
proof (induction xs arbitrary: s)
  case Nil
  then show ?case by simp
next
  case (Cons x xs)
  from keys_links_step [OF Cons.prems, of x] have "keys_ok (snd (step s x)) \<and> links_ok (snd (step s x))" .
  from Cons.IH [OF this] show ?case by simp
qed

lemma keys_links_consistent:
  assumes k: "keys_ok s" and l: "links_ok s"
  shows "ledger_consistent s"
proof -
  have dc: "distinct (map fst (cars s))" and db: "distinct (map fst (bookings s))"
    using k by (simp_all add: keys_ok_def)
  have a: "Booking_id b = k' \<and>
        get_user s (User_id (Booking_user b)) = Some (Booking_user b) \<and>
        (case get_car s (Booking_car b) of
           None \<Rightarrow> False
         | Some c \<Rightarrow> Car_id c = Booking_car b \<and> count_list (Car_bookings c) b = 1) \<and>
        (\<forall>(k', c') \<in> set (cars s). b \<in> set (Car_bookings c') \<longrightarrow> k' = Booking_car b)"
    if "(k', b) \<in> set (bookings s)" for k' b
  proof -
    from that db have m: "map_of (bookings s) k' = Some b" by simp
    from k m have 1: "Booking_id b = k'" unfolding keys_ok_def by blast
    from l m have 2: "get_user s (User_id (Booking_user b)) = Some (Booking_user b)"
      unfolding links_ok_def get_user_def by blast
    from l m obtain c where c: "map_of (cars s) (Booking_car b) = Some c"
      and cnt: "count_list (Car_bookings c) b = 1"
      unfolding links_ok_def by blast
    from k c have "Car_id c = Booking_car b" unfolding keys_ok_def by blast
    with c cnt have 3: "case get_car s (Booking_car b) of
           None \<Rightarrow> False
         | Some c \<Rightarrow> Car_id c = Booking_car b \<and> count_list (Car_bookings c) b = 1"
      by (simp add: get_car_def)
    have 4: "\<forall>(k', c') \<in> set (cars s). b \<in> set (Car_bookings c') \<longrightarrow> k' = Booking_car b"
    proof (clarify)
      fix k'' c'' assume "(k'', c'') \<in> set (cars s)" and mem: "b \<in> set (Car_bookings c'')"
      with dc have "map_of (cars s) k'' = Some c''" by simp
      with l mem show "k'' = Booking_car b" unfolding links_ok_def by blast
    qed
    from 1 2 3 4 show ?thesis by blast
  qed
  have b: "\<forall>(k', c') \<in> set (cars s). \<forall>b \<in> set (Car_bookings c').
        map_of (bookings s) (Booking_id b) = Some b"
  proof (clarify)
    fix k' c' b assume "(k', c') \<in> set (cars s)" and mem: "b \<in> set (Car_bookings c')"
    with dc have "map_of (cars s) k' = Some c'" by simp
    with l mem show "map_of (bookings s) (Booking_id b) = Some b"
      unfolding links_ok_def by blast
  qed
  show ?thesis
    unfolding ledger_consistent_def using db a b by blast
qed

text \<open>
  Claim C10. After any sequence of calls on a new service, the ledger and the booking
  lists of the cars agree: every booking of the ledger stands under its own identifier,
  is listed exactly once by the car it refers to and by no other car, and refers to a
  user and a car of the store; and every booking listed by a car is in the ledger.
\<close>

theorem ledger_and_cars_consistent: "ledger_consistent (run RentalService_init xs)"
proof -
  have "keys_ok RentalService_init \<and> links_ok RentalService_init"
    by (simp add: keys_ok_def links_ok_def RentalService_init_def)
  then have "keys_ok (run RentalService_init xs) \<and> links_ok (run RentalService_init xs)"
    by (rule keys_links_run)
  then show ?thesis by (simp add: keys_links_consistent)
qed

theorem ledger_and_cars_consistent_witness:
  "ledger (run RentalService_init scenario) = [booking1, booking2]
   \<and> ledger_consistent (run RentalService_init scenario)
   \<and> get_car (run RentalService_init scenario) (Booking_car booking2) =
       Some (peugeot [booking1, booking2])
   \<and> count_list [booking1, booking2] booking2 = 1"
  using ledger_and_cars_consistent [of scenario]
  by (simp add: run_scenario after_scenario_def ledger_def get_car_def example_defs)

end
